theory Spec2Isabelle
  imports Main "HOL-Library.Word"
begin

unbundle bit_operations_syntax

section \<open>The hydroclima2 driver (src/components/wmbus/driver\_hydroclima2.cpp)\<close>

subsection \<open>Machine types and faults\<close>

type_synonym uchar = "8 word"
type_synonym ushort = "16 word"
type_synonym uint = "32 word"

text \<open>
  C++ gives no meaning to a read past the end of an array or of a vector. The model
  stops at the first such read and returns the fault, so that every out-of-range read of
  the source is a branch of the model.
\<close>

datatype fault = TableOverrun | VectorOverrun

definition fault_bind :: "fault + 'a \<Rightarrow> ('a \<Rightarrow> fault + 'b) \<Rightarrow> fault + 'b" where
  "fault_bind m f = (case m of Inl e \<Rightarrow> Inl e | Inr x \<Rightarrow> f x)"

text \<open>
  A \<open>double\<close> of this driver is always the quotient of an \<open>int\<close> converted to \<open>double\<close>
  (exact, the operand is below \<open>2 ^ 53\<close>) by a decimal constant that is an integer
  (\<open>100.0\<close>, \<open>10.0\<close>, exact as well). \<open>Double_div a b\<close> stands for the IEEE-754 binary64
  division \<open>(double) a / (double) b\<close>; the rounding of the quotient is left to the
  hardware and is not evaluated here.
\<close>

datatype double = Double_div int int

subsection \<open>Scalar decoders (lines 64-72)\<close>

text \<open>
  \<open>(hi<<8) | lo\<close>: both \<open>uchar\<close> operands are promoted to the 32-bit \<open>int\<close> before the
  shift and the bitwise or.
\<close>

definition shift_or :: "uchar \<Rightarrow> uchar \<Rightarrow> uint" where
  "shift_or hi lo = push_bit 8 (ucast hi) OR ucast lo"

definition toTemperature :: "uchar \<Rightarrow> uchar \<Rightarrow> double" where
  "toTemperature hi lo = Double_div (sint (shift_or hi lo)) 100"

definition toIndicationU :: "uchar \<Rightarrow> uchar \<Rightarrow> double" where
  "toIndicationU hi lo = Double_div (sint (shift_or hi lo)) 10"

subsection \<open>DecodeDateTime (lines 74-97)\<close>

definition isLeapYear :: "uint \<Rightarrow> bool" where
  "isLeapYear year \<longleftrightarrow> (year mod 4 = 0 \<and> year mod 100 \<noteq> 0) \<or> year mod 400 = 0"

text \<open>The local array of line 80, after the assignment of lines 82-83.\<close>

definition daysInMonths :: "bool \<Rightarrow> uint list" where
  "daysInMonths leap =
     (let t = [31, 28, 31, 30, 31, 30, 31, 31, 30, 31, 30, 31]
      in if leap then t[1 := 29] else t)"

text \<open>
  The loop of lines 84-88. The array has twelve entries; reading entry \<open>month\<close> with
  \<open>12 \<le> month\<close> is the fault \<open>TableOverrun\<close>. The comparison is made in \<open>unsigned int\<close>
  (the \<open>ushort\<close> is converted), and \<open>dayOfYear -= ...\<close> computes in \<open>unsigned int\<close> and
  converts back to \<open>ushort\<close>.
\<close>

function month_loop :: "bool \<Rightarrow> ushort \<Rightarrow> uint \<Rightarrow> fault + (ushort \<times> uint)" where
  "month_loop leap dayOfYear month =
     (if 12 \<le> unat month then Inl TableOverrun
      else if ucast dayOfYear > daysInMonths leap ! unat month
      then month_loop leap (ucast (ucast dayOfYear - daysInMonths leap ! unat month)) (month + 1)
      else Inr (dayOfYear, month))"
  by pat_completeness auto
termination
proof (relation "measure (\<lambda>(leap, dayOfYear, month). 12 - unat month)")
  show "wf (measure (\<lambda>(leap, dayOfYear, month). 12 - unat month))"
    by simp
next
  fix leap :: bool and dayOfYear :: ushort and month :: uint
  assume "\<not> 12 \<le> unat month"
  then have "unat month < 12"
    by simp
  then have "unat (month + 1) = unat month + 1"
    by (simp add: unat_word_ariths)
  with \<open>unat month < 12\<close>
  show "((leap, ucast (ucast dayOfYear - daysInMonths leap ! unat month) :: ushort, month + 1),
         (leap, dayOfYear, month))
        \<in> measure (\<lambda>(leap, dayOfYear, month). 12 - unat month)"
    by simp
qed

text \<open>
  The number of times the body of the loop runs: the same recursion as \<open>month_loop\<close>,
  counting the iterations instead of returning the variables.
\<close>

function month_loop_iterations :: "bool \<Rightarrow> ushort \<Rightarrow> uint \<Rightarrow> nat" where
  "month_loop_iterations leap dayOfYear month =
     (if 12 \<le> unat month then 0
      else if ucast dayOfYear > daysInMonths leap ! unat month
      then Suc (month_loop_iterations leap
                  (ucast (ucast dayOfYear - daysInMonths leap ! unat month)) (month + 1))
      else 0)"
  by pat_completeness auto
termination
proof (relation "measure (\<lambda>(leap, dayOfYear, month). 12 - unat month)")
  show "wf (measure (\<lambda>(leap, dayOfYear, month). 12 - unat month))"
    by simp
next
  fix leap :: bool and dayOfYear :: ushort and month :: uint
  assume "\<not> 12 \<le> unat month"
  then have "unat month < 12"
    by simp
  then have "unat (month + 1) = unat month + 1"
    by (simp add: unat_word_ariths)
  with \<open>unat month < 12\<close>
  show "((leap, ucast (ucast dayOfYear - daysInMonths leap ! unat month) :: ushort, month + 1),
         (leap, dayOfYear, month))
        \<in> measure (\<lambda>(leap, dayOfYear, month). 12 - unat month)"
    by simp
qed

text \<open>Lines 76-79: the two bit fields of \<open>encodedDate\<close> (computed in \<open>int\<close>) and the year.\<close>

definition dayOfYear_of :: "ushort \<Rightarrow> ushort" where
  "dayOfYear_of encodedDate = ucast ((ucast encodedDate :: uint) AND 0x1FF)"

definition yearOffset_of :: "ushort \<Rightarrow> ushort" where
  "yearOffset_of encodedDate = ucast (drop_bit 9 (ucast encodedDate :: uint) AND 0x7F)"

definition year_of :: "ushort \<Rightarrow> uint" where
  "year_of encodedDate = ucast (yearOffset_of encodedDate) + 2000"

text \<open>Lines 76-88: year, month and dayOfYear as they stand when the loop has ended.\<close>

definition date_fields :: "ushort \<Rightarrow> fault + (uint \<times> uint \<times> ushort)" where
  "date_fields encodedDate =
     (let dayOfYear = dayOfYear_of encodedDate;
          year = year_of encodedDate;
          month = 0
      in fault_bind (month_loop (isLeapYear year) dayOfYear month)
           (\<lambda>(dayOfYear, month). Inr (year, month, dayOfYear)))"

text \<open>Lines 90-92, all in \<open>unsigned int\<close>.\<close>

definition time_fields :: "ushort \<Rightarrow> uint \<times> uint \<times> uint" where
  "time_fields encodedTime =
     (let hour = ucast encodedTime div 1800;
          minutes = (ucast encodedTime - hour * 1800) div 30;
          seconds = (ucast encodedTime - hour * 1800 - minutes * 30) div 2
      in (hour, minutes, seconds))"

text \<open>
  The conversions \<open>%d\<close> and \<open>%02d\<close> of \<open>snprintf\<close>: decimal digits, a minus sign for a
  negative value, and for \<open>%02d\<close> zeros on the left up to a width of two characters.
\<close>

definition digit_char :: "nat \<Rightarrow> char" where
  "digit_char n = char_of (48 + n)"

function dec_digits :: "nat \<Rightarrow> string" where
  "dec_digits n = (if n < 10 then [digit_char n] else dec_digits (n div 10) @ [digit_char (n mod 10)])"
  by pat_completeness auto
termination
  by (relation "measure id") auto

definition printf_d :: "int \<Rightarrow> string" where
  "printf_d v = (if v < 0 then CHR ''-'' # dec_digits (nat (- v)) else dec_digits (nat v))"

definition printf_02d :: "int \<Rightarrow> string" where
  "printf_02d v =
     (if v < 0 then CHR ''-'' # dec_digits (nat (- v))
      else replicate (2 - length (dec_digits (nat v))) CHR ''0'' @ dec_digits (nat v))"

text \<open>
  Lines 94-95: \<open>snprintf\<close> into \<open>buf[30]\<close> keeps at most 29 characters. The five
  \<open>unsigned int\<close> arguments are read by \<open>%d\<close> as \<open>int\<close>; the \<open>ushort\<close> is promoted.
\<close>

definition snprintf_timestamp :: "uint \<Rightarrow> uint \<Rightarrow> ushort \<Rightarrow> uint \<Rightarrow> uint \<Rightarrow> uint \<Rightarrow> string" where
  "snprintf_timestamp year month dayOfYear hour minutes seconds =
     take 29 (printf_d (sint year) @ ''-'' @ printf_02d (sint month) @ ''-''
              @ printf_02d (uint dayOfYear) @ ''T'' @ printf_02d (sint hour) @ '':''
              @ printf_02d (sint minutes) @ '':'' @ printf_02d (sint seconds) @ ''Z'')"

definition DecodeDateTime :: "ushort \<Rightarrow> ushort \<Rightarrow> fault + string" where
  "DecodeDateTime encodedDate encodedTime =
     fault_bind (date_fields encodedDate)
       (\<lambda>(year, month, dayOfYear).
          let (hour, minutes, seconds) = time_fields encodedTime
          in Inr (snprintf_timestamp year month dayOfYear hour minutes seconds))"

subsection \<open>The framework's side of processContent\<close>

text \<open>
  Modelled from the spec: the enumerations \<open>KindOfData\<close>, \<open>Understanding\<close>, \<open>Unit\<close> and
  \<open>Quantity\<close> are declared in the framework's headers, which are not among the sources;
  only the members the driver names are listed.
\<close>

datatype KindOfData = CONTENT
datatype Understanding = FULL
datatype Unit = Unit_HCA | Unit_C
datatype Quantity = Quantity_HCA | Quantity_Temperature

text \<open>
  An explanation is kept as the driver passes it to \<open>addSpecialExplanation\<close>: position,
  length, kind, understanding, the format string and the variadic arguments after it.
\<close>

datatype printf_arg = Arg_int int | Arg_str string

record explanation =
  ex_offset :: int
  ex_len :: int
  ex_kind :: KindOfData
  ex_understanding :: Understanding
  ex_format :: string
  ex_args :: "printf_arg list"

text \<open>
  What processContent reads from the telegram. Modelled from the spec:
  \<open>Telegram::extractMfctData\<close> is framework code that is not among the sources; it yields
  the manufacturer-specific bytes of the telegram, here the field \<open>mfct_data\<close>.
\<close>

record Telegram =
  mfct_0f_index :: int
  header_size :: int
  mfct_data :: "uchar list"

text \<open>
  What processContent writes: the explanations added to the telegram, the numeric fields
  of the meter, and the debug log.
\<close>

record state =
  explanations :: "explanation list"
  numeric_values :: "string \<rightharpoonup> Unit \<times> double"
  debug_log :: "(string \<times> uchar list) list"

text \<open>
  Modelled from the spec: \<open>Telegram::addSpecialExplanation\<close> is framework code that is
  not among the sources; it records one annotation (offset, length, kind, understanding,
  description) after those recorded before.
\<close>

definition addSpecialExplanation ::
  "int \<Rightarrow> int \<Rightarrow> KindOfData \<Rightarrow> Understanding \<Rightarrow> string \<Rightarrow> printf_arg list \<Rightarrow> state \<Rightarrow> state" where
  "addSpecialExplanation offset len k u fmt args s =
     s\<lparr>explanations := explanations s @
        [\<lparr>ex_offset = offset, ex_len = len, ex_kind = k, ex_understanding = u,
          ex_format = fmt, ex_args = args\<rparr>]\<rparr>"

text \<open>
  Modelled from the spec: \<open>setNumericValue\<close> is framework code that is not among the
  sources; it stores the value under the field name with its unit.
\<close>

definition setNumericValue :: "string \<Rightarrow> Unit \<Rightarrow> double \<Rightarrow> state \<Rightarrow> state" where
  "setNumericValue name u v s = s\<lparr>numeric_values := (numeric_values s)(name \<mapsto> (u, v))\<rparr>"

text \<open>
  Modelled from the spec: \<open>debugPayload\<close> is framework code that is not among the
  sources; it logs the label and the bytes.
\<close>

definition debugPayload :: "string \<Rightarrow> uchar list \<Rightarrow> state \<Rightarrow> state" where
  "debugPayload label bytes s = s\<lparr>debug_log := debug_log s @ [(label, bytes)]\<rparr>"

text \<open>
  \<open>renderJsonOnlyDefaultUnit\<close> is framework code that is not among the sources: it is a
  parameter of the model, a function of the stored numeric fields, the field name and the
  quantity.
\<close>

type_synonym renderer = "(string \<rightharpoonup> Unit \<times> double) \<Rightarrow> string \<Rightarrow> Quantity \<Rightarrow> string"

text \<open>\<open>bytes[i]\<close> on the vector: a read outside \<open>0 ..< size\<close> is the fault \<open>VectorOverrun\<close>.\<close>

definition vector_at :: "uchar list \<Rightarrow> int \<Rightarrow> fault + uchar" where
  "vector_at bytes i =
     (if 0 \<le> i \<and> i < int (length bytes) then Inr (bytes ! nat i) else Inl VectorOverrun)"

text \<open>\<open>uint16_t x = hi<<8 | lo\<close>: computed in \<open>int\<close>, converted to 16 bits.\<close>

definition to_uint16 :: "uchar \<Rightarrow> uchar \<Rightarrow> ushort" where
  "to_uint16 hi lo = ucast (shift_or hi lo)"

subsection \<open>Driver::processContent (lines 99-167)\<close>

text \<open>
  The body is a chain of seven guarded blocks. Each block is one definition that ends in
  the next one; they are written from the last block to the first. \<open>i\<close> and \<open>offset\<close> are
  the source's \<open>int\<close> variables, \<open>len\<close> is \<open>bytes.size()\<close>. They are integers without a
  bound here: \<open>i\<close> stays below 16 and the other two are sizes and positions within one
  telegram, so no operation on them reaches the limits of \<open>int\<close>.
\<close>

text \<open>Lines 160-166.\<close>

definition decode_average_ambient_temperature ::
  "renderer \<Rightarrow> uchar list \<Rightarrow> int \<Rightarrow> int \<Rightarrow> state \<Rightarrow> fault + state" where
  "decode_average_ambient_temperature render bytes offset i s =
     (if i + 1 \<ge> int (length bytes) then Inr s
      else fault_bind (vector_at bytes (i + 1)) (\<lambda>b1. fault_bind (vector_at bytes i) (\<lambda>b0.
        let max_ambient_temperature_c = toTemperature b1 b0;
            s = setNumericValue ''average_ambient_temperature'' Unit_C max_ambient_temperature_c s;
            info = render (numeric_values s) ''average_ambient_temperature'' Quantity_Temperature;
            s = addSpecialExplanation (i + offset) 2 CONTENT FULL ''*** %02X%02X (%s)''
                  [Arg_int (uint b0), Arg_int (uint b1), Arg_str info] s
        in Inr s)))"

text \<open>Lines 152-158.\<close>

definition decode_current_consumption ::
  "renderer \<Rightarrow> uchar list \<Rightarrow> int \<Rightarrow> int \<Rightarrow> state \<Rightarrow> fault + state" where
  "decode_current_consumption render bytes offset i s =
     (if i + 1 \<ge> int (length bytes) then Inr s
      else fault_bind (vector_at bytes (i + 1)) (\<lambda>b1. fault_bind (vector_at bytes i) (\<lambda>b0.
        let indication_c = toIndicationU b1 b0;
            s = setNumericValue ''current_consumption'' Unit_HCA indication_c s;
            info = render (numeric_values s) ''current_consumption'' Quantity_HCA;
            s = addSpecialExplanation (i + offset) 2 CONTENT FULL ''*** %02X%02X (%s)''
                  [Arg_int (uint b0), Arg_int (uint b1), Arg_str info] s
        in decode_average_ambient_temperature render bytes offset (i + 2) s)))"

text \<open>Lines 144-150.\<close>

definition decode_previous_average_ambient_temperature ::
  "renderer \<Rightarrow> uchar list \<Rightarrow> int \<Rightarrow> int \<Rightarrow> state \<Rightarrow> fault + state" where
  "decode_previous_average_ambient_temperature render bytes offset i s =
     (if i + 1 \<ge> int (length bytes) then Inr s
      else fault_bind (vector_at bytes (i + 1)) (\<lambda>b1. fault_bind (vector_at bytes i) (\<lambda>b0.
        let average_ambient_temperature_c = toTemperature b1 b0;
            s = setNumericValue ''previous_average_ambient_temperature'' Unit_C
                  average_ambient_temperature_c s;
            info = render (numeric_values s) ''previous_average_ambient_temperature''
                     Quantity_Temperature;
            s = addSpecialExplanation (i + offset) 2 CONTENT FULL ''*** %02X%02X (%s)''
                  [Arg_int (uint b0), Arg_int (uint b1), Arg_str info] s
        in decode_current_consumption render bytes offset (i + 2) s)))"

text \<open>Lines 136-142.\<close>

definition decode_previous_consumption ::
  "renderer \<Rightarrow> uchar list \<Rightarrow> int \<Rightarrow> int \<Rightarrow> state \<Rightarrow> fault + state" where
  "decode_previous_consumption render bytes offset i s =
     (if i + 1 \<ge> int (length bytes) then Inr s
      else fault_bind (vector_at bytes (i + 1)) (\<lambda>b1. fault_bind (vector_at bytes i) (\<lambda>b0.
        let indication_u = toIndicationU b1 b0;
            s = setNumericValue ''previous_consumption'' Unit_HCA indication_u s;
            info = render (numeric_values s) ''previous_consumption'' Quantity_HCA;
            s = addSpecialExplanation (i + offset) 2 CONTENT FULL ''*** %02X%02X (%s)''
                  [Arg_int (uint b0), Arg_int (uint b1), Arg_str info] s
        in decode_previous_average_ambient_temperature render bytes offset (i + 2) s)))"

text \<open>Lines 127-134. The explanation is added with length 2.\<close>

definition decode_device_date ::
  "renderer \<Rightarrow> uchar list \<Rightarrow> int \<Rightarrow> int \<Rightarrow> state \<Rightarrow> fault + state" where
  "decode_device_date render bytes offset i s =
     (if i + 3 \<ge> int (length bytes) then Inr s
      else fault_bind (vector_at bytes (i + 1)) (\<lambda>b1. fault_bind (vector_at bytes i) (\<lambda>b0.
           fault_bind (vector_at bytes (i + 3)) (\<lambda>b3. fault_bind (vector_at bytes (i + 2)) (\<lambda>b2.
        let time = to_uint16 b1 b0;
            date = to_uint16 b3 b2
        in fault_bind (DecodeDateTime date time) (\<lambda>decodedDateTime.
             let s = addSpecialExplanation (i + offset) 2 CONTENT FULL
                       ''*** %02X%02X%02X%02X device date (%s)''
                       [Arg_int (uint b0), Arg_int (uint b1), Arg_int (uint b2),
                        Arg_int (uint b3), Arg_str decodedDateTime] s
             in decode_previous_consumption render bytes offset (i + 4) s))))))"

text \<open>Lines 120-124. \<open>status\<close> is a third argument of a format with two conversions.\<close>

definition decode_status ::
  "renderer \<Rightarrow> uchar list \<Rightarrow> int \<Rightarrow> int \<Rightarrow> state \<Rightarrow> fault + state" where
  "decode_status render bytes offset i s =
     (if i + 1 \<ge> int (length bytes) then Inr s
      else fault_bind (vector_at bytes (i + 1)) (\<lambda>b1. fault_bind (vector_at bytes i) (\<lambda>b0.
        let status = to_uint16 b1 b0;
            s = addSpecialExplanation (i + offset) 2 CONTENT FULL ''*** %02X%02X status''
                  [Arg_int (uint b0), Arg_int (uint b1), Arg_int (uint status)] s
        in decode_device_date render bytes offset (i + 2) s)))"

text \<open>Lines 114-118.\<close>

definition decode_num_measurements ::
  "renderer \<Rightarrow> uchar list \<Rightarrow> int \<Rightarrow> int \<Rightarrow> state \<Rightarrow> fault + state" where
  "decode_num_measurements render bytes offset i s =
     (if i + 1 \<ge> int (length bytes) then Inr s
      else fault_bind (vector_at bytes (i + 1)) (\<lambda>b1. fault_bind (vector_at bytes i) (\<lambda>b0.
        let num_measurements = to_uint16 b1 b0;
            s = addSpecialExplanation (i + offset) 2 CONTENT FULL
                  ''*** %02X%02X num measurements %d''
                  [Arg_int (uint b0), Arg_int (uint b1), Arg_int (uint num_measurements)] s
        in decode_status render bytes offset (i + 2) s)))"

text \<open>Lines 99-112: the test for manufacturer data, the offset, the bytes and the log.\<close>

definition processContent :: "renderer \<Rightarrow> Telegram \<Rightarrow> state \<Rightarrow> fault + state" where
  "processContent render t s =
     (if mfct_0f_index t = - 1 then Inr s
      else
        let offset = header_size t + mfct_0f_index t;
            bytes = mfct_data t;
            s = debugPayload ''(hydroclima mfct)'' bytes s;
            i = 0
        in decode_num_measurements render bytes offset i s)"

subsection \<open>Auxiliary definitions for the statements\<close>

text \<open>The sum of the first \<open>k\<close> entries of the month table: the days of \<open>k\<close> whole months.\<close>

definition days_before :: "bool \<Rightarrow> nat \<Rightarrow> nat" where
  "days_before leap k = sum_list (map unat (take k (daysInMonths leap)))"

text \<open>The two halves of the text that \<open>snprintf\<close> writes, up to \<open>T\<close> and after it.\<close>

definition date_text :: "nat \<Rightarrow> nat \<Rightarrow> nat \<Rightarrow> string" where
  "date_text y m dd =
     printf_d (int y) @ ''-'' @ printf_02d (int m) @ ''-'' @ printf_02d (int dd) @ ''T''"

definition time_text :: "nat \<Rightarrow> nat \<Rightarrow> nat \<Rightarrow> string" where
  "time_text h mi s =
     printf_02d (int h) @ '':'' @ printf_02d (int mi) @ '':'' @ printf_02d (int s) @ ''Z''"

text \<open>The telegram of the end-to-end scenario: thirteen bytes, header size and index 0.\<close>

definition scenario_telegram :: Telegram where
  "scenario_telegram = \<lparr>mfct_0f_index = 0, header_size = 0,
     mfct_data = [0x02, 0x00, 0x00, 0x00, 0x64, 0x19, 0x32, 0x07, 0xE8, 0x03, 0x0F, 0x27, 0x10]\<rparr>"

text \<open>A state in which nothing has been explained, stored or logged.\<close>

definition empty_state :: state where
  "empty_state = \<lparr>explanations = [], numeric_values = Map.empty, debug_log = []\<rparr>"

text \<open>A renderer for closed examples: it renders every field as the empty text.\<close>

definition render_blank :: renderer where
  "render_blank m n q = []"

text \<open>The numeric field stored under a name after a run; nothing after a fault.\<close>

definition numeric_value_after :: "fault + state \<Rightarrow> string \<Rightarrow> (Unit \<times> double) option" where
  "numeric_value_after r name = (case r of Inl e \<Rightarrow> None | Inr s \<Rightarrow> numeric_values s name)"

text \<open>
  The seven segments of the payload (2, 2, 4, 2, 2, 2, 2 bytes): where each starts, where each
  ends, and how many of them lie entirely within the first \<open>n\<close> bytes.
\<close>

definition segment_starts :: "int list" where
  "segment_starts = [0, 2, 4, 8, 10, 12, 14]"

definition segment_ends :: "nat list" where
  "segment_ends = [2, 4, 8, 10, 12, 14, 16]"

definition segments_fitting :: "nat \<Rightarrow> nat" where
  "segments_fitting n = length (takeWhile (\<lambda>e. e \<le> n) segment_ends)"

text \<open>The numeric fields of segments four to seven, in the order of the segments.\<close>

definition value_fields :: "string list" where
  "value_fields = [''previous_consumption'', ''previous_average_ambient_temperature'',
                   ''current_consumption'', ''average_ambient_temperature'']"

text \<open>Position and length of every explanation, in the order they were added.\<close>

definition explained_ranges :: "state \<Rightarrow> (int \<times> int) list" where
  "explained_ranges s = map (\<lambda>e. (ex_offset e, ex_len e)) (explanations s)"

text \<open>
  A telegram of eight bytes whose date field is \<open>0x01FF\<close>: day-of-year 511 of the year
  2000.
\<close>

definition overrun_telegram :: Telegram where
  "overrun_telegram = \<lparr>mfct_0f_index = 0, header_size = 0,
     mfct_data = [0x00, 0x00, 0x00, 0x00, 0x00, 0x00, 0xFF, 0x01]\<rparr>"

section \<open>Lemmas\<close>

text \<open>The recursion equations of the loops are unfolded by hand, one step at a time.\<close>

declare month_loop.simps [simp del]
declare month_loop_iterations.simps [simp del]
declare dec_digits.simps [simp del]

subsection \<open>Words as numbers\<close>


lemma unat_ucast_16_32: "unat (ucast (w :: ushort) :: uint) = unat w"
proof -
  have "unat w < 2 ^ 16" using unsigned_less [of w] by simp
  then have "unat w < 2 ^ 32" by simp
  then show ?thesis by (simp add: unsigned_ucast_eq take_bit_nat_eq_self)
qed

lemma unat_ucast_8_32: "unat (ucast (w :: uchar) :: uint) = unat w"
proof -
  have "unat w < 2 ^ 8" using unsigned_less [of w] by simp
  then have "unat w < 2 ^ 32" by simp
  then show ?thesis by (simp add: unsigned_ucast_eq take_bit_nat_eq_self)
qed

subsection \<open>The month table and the loop\<close>

lemma length_daysInMonths: "length (daysInMonths leap) = 12"
  by (simp add: daysInMonths_def Let_def)

lemma days_before_0: "days_before leap 0 = 0"
  by (simp add: days_before_def)

lemma days_before_Suc:
  "k < 12 \<Longrightarrow> days_before leap (Suc k) = days_before leap k + unat (daysInMonths leap ! k)"
  by (simp add: days_before_def take_Suc_conv_app_nth length_daysInMonths)

lemma days_before_12: "days_before leap 12 = (if leap then 366 else 365)"
  by (simp add: days_before_def daysInMonths_def Let_def)

lemma days_before_mono: "k \<le> 12 \<Longrightarrow> days_before leap k \<le> days_before leap 12"
proof -
  assume "k \<le> 12"
  have "map unat (daysInMonths leap) = map unat (take k (daysInMonths leap)) @ map unat (drop k (daysInMonths leap))"
    by (simp flip: map_append)
  then have "sum_list (map unat (daysInMonths leap)) = days_before leap k + sum_list (map unat (drop k (daysInMonths leap)))"
    unfolding days_before_def by (metis sum_list_append)
  moreover have "days_before leap 12 = sum_list (map unat (daysInMonths leap))"
    by (simp add: days_before_def length_daysInMonths)
  ultimately show ?thesis by simp
qed

lemma loop_test: "(daysInMonths leap ! unat month < ucast (d :: ushort)) \<longleftrightarrow> unat (daysInMonths leap ! unat month) < unat d"
  by (simp add: word_less_nat_alt unat_ucast_16_32)

lemma loop_sub:
  assumes "unat t < unat d"
  shows "unat (ucast ((ucast (d :: ushort) :: uint) - t) :: ushort) = unat d - unat t"
proof -
  have d: "unat d < 2 ^ 16" using unsigned_less [of d] by simp
  from assms have "t \<le> ucast d" by (simp add: word_le_nat_alt unat_ucast_16_32)
  then have "unat (ucast d - t) = unat d - unat t"
    by (simp add: unat_sub unat_ucast_16_32)
  moreover have "unat d - unat t < 2 ^ 16" using d by simp
  ultimately show ?thesis by (simp add: unsigned_ucast_eq take_bit_nat_eq_self)
qed

lemma unat_month_Suc: "unat (month :: uint) < 12 \<Longrightarrow> unat (month + 1) = Suc (unat month)"
  by (simp add: unat_word_ariths)

lemma month_loop_in_range:
  "unat month < 12 \<Longrightarrow> 1 \<le> unat d \<Longrightarrow>
   unat d + days_before leap (unat month) \<le> days_before leap 12 \<Longrightarrow>
   \<exists>d' month'. month_loop leap d month = Inr (d', month') \<and> unat month \<le> unat month' \<and> unat month' < 12
      \<and> 1 \<le> unat d' \<and> unat d' \<le> unat (daysInMonths leap ! unat month')
      \<and> unat d' + days_before leap (unat month') = unat d + days_before leap (unat month)
      \<and> month_loop_iterations leap d month = unat month' - unat month"
proof (induction leap d month rule: month_loop.induct)
  case (1 leap d month)
  let ?t = "daysInMonths leap ! unat month"
  show ?case
  proof (cases "unat ?t < unat d")
    case False
    with "1.prems" show ?thesis
      by (subst month_loop.simps, subst month_loop_iterations.simps) (simp add: loop_test)
  next
    case True
    let ?d = "ucast (ucast d - ?t) :: ushort"
    have dS: "days_before leap (Suc (unat month)) = days_before leap (unat month) + unat ?t"
      using "1.prems"(1) by (rule days_before_Suc)
    have sub: "unat ?d = unat d - unat ?t"
      using True by (rule loop_sub)
    have "unat month \<noteq> 11"
    proof
      assume "unat month = 11"
      then have "days_before leap 12 = days_before leap (unat month) + unat ?t"
        using dS by simp
      with "1.prems"(3) True show False by simp
    qed
    with "1.prems"(1) have lt: "unat (month + 1) < 12" and S: "unat (month + 1) = Suc (unat month)"
      by (simp_all add: unat_month_Suc)
    have "\<exists>d' month'. month_loop leap ?d (month + 1) = Inr (d', month') \<and> unat (month + 1) \<le> unat month' \<and> unat month' < 12
      \<and> 1 \<le> unat d' \<and> unat d' \<le> unat (daysInMonths leap ! unat month')
      \<and> unat d' + days_before leap (unat month') = unat ?d + days_before leap (unat (month + 1))
      \<and> month_loop_iterations leap ?d (month + 1) = unat month' - unat (month + 1)"
    proof (rule "1.IH")
      show "\<not> 12 \<le> unat month" using "1.prems"(1) by simp
      show "?t < ucast d" using True by (simp add: loop_test)
      show "unat (month + 1) < 12" by (rule lt)
      show "1 \<le> unat ?d" using True sub by simp
      show "unat ?d + days_before leap (unat (month + 1)) \<le> days_before leap 12"
        using "1.prems"(3) True sub S dS by simp
    qed
    then obtain d' month' where r: "month_loop leap ?d (month + 1) = Inr (d', month')"
      "unat (month + 1) \<le> unat month'" "unat month' < 12" "1 \<le> unat d'"
      "unat d' \<le> unat (daysInMonths leap ! unat month')"
      "unat d' + days_before leap (unat month') = unat ?d + days_before leap (unat (month + 1))"
      "month_loop_iterations leap ?d (month + 1) = unat month' - unat (month + 1)"
      by blast
    have "month_loop leap d month = Inr (d', month')"
      using "1.prems"(1) True r(1) by (subst month_loop.simps) (simp add: loop_test)
    moreover have "month_loop_iterations leap d month = unat month' - unat month"
      using "1.prems"(1) True r(7) r(2) S by (subst month_loop_iterations.simps) (simp add: loop_test)
    moreover have "unat d' + days_before leap (unat month') = unat d + days_before leap (unat month)"
      using r(6) sub S dS True by simp
    ultimately show ?thesis using r(2,3,4,5) S by simp
  qed
qed

lemma month_loop_overrun:
  "unat month \<le> 12 \<Longrightarrow> days_before leap 12 < unat d + days_before leap (unat month) \<Longrightarrow>
   month_loop leap d month = Inl TableOverrun"
proof (induction leap d month rule: month_loop.induct)
  case (1 leap d month)
  let ?t = "daysInMonths leap ! unat month"
  show ?case
  proof (cases "12 \<le> unat month")
    case True
    then show ?thesis by (subst month_loop.simps) simp
  next
    case False
    then have m: "unat month < 12" by simp
    let ?d = "ucast (ucast d - ?t) :: ushort"
    have dS: "days_before leap (Suc (unat month)) = days_before leap (unat month) + unat ?t"
      using m by (rule days_before_Suc)
    have "days_before leap (Suc (unat month)) \<le> days_before leap 12"
      using m by (intro days_before_mono) simp
    with "1.prems"(2) dS have gt: "unat ?t < unat d" by simp
    then have sub: "unat ?d = unat d - unat ?t" by (rule loop_sub)
    have S: "unat (month + 1) = Suc (unat month)" using m by (rule unat_month_Suc)
    have "month_loop leap ?d (month + 1) = Inl TableOverrun"
    proof (rule "1.IH")
      show "\<not> 12 \<le> unat month" by (rule False)
      show "?t < ucast d" using gt by (simp add: loop_test)
      show "unat (month + 1) \<le> 12" using m S by simp
      show "days_before leap 12 < unat ?d + days_before leap (unat (month + 1))"
        using "1.prems"(2) gt sub S dS by simp
    qed
    then show ?thesis using m gt by (subst month_loop.simps) (simp add: loop_test)
  qed
qed

subsection \<open>The fields of the date and of the time\<close>

lemma mask_0x1FF: "(0x1FF :: uint) = mask 9"
  by (simp add: mask_numeral)

lemma mask_0x7F: "(0x7F :: uint) = mask 7"
  by (simp add: mask_numeral)

lemma unat_dayOfYear_of: "unat (dayOfYear_of d) = unat d mod 512"
proof -
  have "unat ((ucast d :: uint) AND 0x1FF) = unat d mod 512"
    unfolding mask_0x1FF
    by (simp flip: take_bit_eq_mask
        add: unsigned_take_bit_eq take_bit_eq_mod unat_ucast_16_32 unat_mod_distrib)
  moreover have "unat d mod 512 < 2 ^ 16"
    using unsigned_less [of d] by simp
  ultimately show ?thesis
    unfolding dayOfYear_of_def by (simp add: unsigned_ucast_eq take_bit_nat_eq_self)
qed

lemma unat_yearOffset_of: "unat (yearOffset_of d) = unat d div 512"
proof -
  have lt: "unat d < 2 ^ 16"
    using unsigned_less [of d] by simp
  then have "unat d div 512 < 128"
    by simp
  then have "unat (drop_bit 9 (ucast d :: uint) AND 0x7F) = unat d div 512"
    unfolding mask_0x7F
    by (simp flip: take_bit_eq_mask
        add: unsigned_take_bit_eq take_bit_eq_mod unat_ucast_16_32 unat_drop_bit_eq
          drop_bit_eq_div unat_mod_distrib unat_div_distrib)
  moreover have "unat d div 512 < 2 ^ 16"
    using lt by simp
  ultimately show ?thesis
    unfolding yearOffset_of_def by (simp add: unsigned_ucast_eq take_bit_nat_eq_self)
qed

lemma yearOffset_of_less: "unat (yearOffset_of d) < 128"
proof -
  have "unat d < 2 ^ 16"
    using unsigned_less [of d] by simp
  then show ?thesis
    by (simp add: unat_yearOffset_of)
qed

lemma unat_year_of: "unat (year_of d) = 2000 + unat (yearOffset_of d)"
  using yearOffset_of_less [of d]
  unfolding year_of_def by (simp add: unat_word_ariths unat_ucast_16_32)

lemma word_mod_eq_0_iff: "(y :: uint) mod k = 0 \<longleftrightarrow> unat y mod unat k = 0"
proof -
  have "y mod k = 0 \<longleftrightarrow> unat (y mod k) = 0"
    by (simp add: unat_eq_0)
  then show ?thesis
    by (simp add: unat_mod_distrib)
qed

lemma isLeapYear_nat:
  "isLeapYear y \<longleftrightarrow> (unat y mod 4 = 0 \<and> unat y mod 100 \<noteq> 0) \<or> unat y mod 400 = 0"
  unfolding isLeapYear_def word_mod_eq_0_iff by simp

lemma isLeapYear_dvd:
  "isLeapYear y \<longleftrightarrow> 4 dvd unat y \<and> (\<not> 100 dvd unat y \<or> 400 dvd unat y)"
proof -
  have "400 dvd unat y \<Longrightarrow> 4 dvd unat y"
    by presburger
  then show ?thesis
    unfolding isLeapYear_nat by (auto simp: dvd_eq_mod_eq_0)
qed

lemma time_fields_nat:
  "time_fields t = (h, mi, s) \<Longrightarrow>
   unat h = unat t div 1800 \<and> unat mi = unat t mod 1800 div 30 \<and> unat s = unat t mod 1800 mod 30 div 2"
proof -
  assume a: "time_fields t = (h, mi, s)"
  have lt: "unat t < 65536" using unsigned_less [of t] by simp
  define T where "T = (ucast t :: uint)"
  have T: "unat T = unat t" by (simp add: T_def unat_ucast_16_32)
  have h: "h = T div 1800" using a by (simp add: time_fields_def Let_def T_def)
  have H: "unat h = unat t div 1800" by (simp add: h unat_div_distrib T)
  have "unat (h * 1800) = unat t div 1800 * 1800"
    using lt by (simp add: unat_word_ariths H)
  moreover have "h * 1800 \<le> T" using lt by (simp add: word_le_nat_alt T calculation)
  ultimately have R: "unat (T - h * 1800) = unat t mod 1800"
    by (simp add: unat_sub T minus_mult_div_eq_mod mult.commute)
  have mi: "mi = (T - h * 1800) div 30" using a by (simp add: time_fields_def Let_def T_def h)
  have MI: "unat mi = unat t mod 1800 div 30" by (simp add: mi unat_div_distrib R)
  have "unat (mi * 30) = unat t mod 1800 div 30 * 30"
    by (simp add: unat_word_ariths MI)
  moreover have "mi * 30 \<le> T - h * 1800" by (simp add: word_le_nat_alt R calculation)
  ultimately have R2: "unat (T - h * 1800 - mi * 30) = unat t mod 1800 mod 30"
    by (simp add: unat_sub R minus_mult_div_eq_mod mult.commute)
  have s: "s = (T - h * 1800 - mi * 30) div 2" using a by (simp add: time_fields_def Let_def T_def h mi)
  have "unat s = unat t mod 1800 mod 30 div 2" by (simp add: s unat_div_distrib R2)
  with H MI show ?thesis by simp
qed

subsection \<open>The text of the timestamp\<close>

lemma uint_less_of_unat: "unat w < n \<Longrightarrow> uint w < int n"
  by (simp only: uint_nat of_nat_less_iff)

lemma uint_le_of_unat: "unat w \<le> n \<Longrightarrow> uint w \<le> int n"
  by (simp only: uint_nat of_nat_le_iff)

lemma sint_small: "uint (w :: uint) < 2147483648 \<Longrightarrow> sint w = uint w"
proof -
  assume "uint w < 2147483648"
  moreover have "- 2147483648 \<le> uint w"
    using uint_ge_0 [of w] by linarith
  ultimately have "signed_take_bit 31 (uint w) = uint w"
    using signed_take_bit_int_eq_self [of 31 "uint w"] by simp
  then show ?thesis
    by (simp add: sint_uint)
qed

lemma sint_of_unat_less: "unat (w :: uint) < 65536 \<Longrightarrow> sint w = int (unat w)"
proof -
  assume "unat w < 65536"
  then have "uint w < 65536"
    using uint_less_of_unat [of w 65536] by simp
  then have "sint w = uint w"
    by (intro sint_small) simp
  then show ?thesis
    by (simp only: uint_nat)
qed

lemma digit_char_0: "digit_char 0 = CHR ''0''"
  by code_simp

lemma dec_digits_one: "n < 10 \<Longrightarrow> dec_digits n = [digit_char n]"
  by (subst dec_digits.simps) simp

lemma dec_digits_two:
  "10 \<le> n \<Longrightarrow> n < 100 \<Longrightarrow> dec_digits n = [digit_char (n div 10), digit_char (n mod 10)]"
  by (subst dec_digits.simps) (simp add: dec_digits_one)

lemma dec_digits_three: "100 \<le> n \<Longrightarrow> n < 1000 \<Longrightarrow> length (dec_digits n) = 3"
  by (subst dec_digits.simps) (simp add: dec_digits_two)

lemma dec_digits_four: "1000 \<le> n \<Longrightarrow> n < 10000 \<Longrightarrow> length (dec_digits n) = 4"
  by (subst dec_digits.simps) (simp add: dec_digits_three)

lemma printf_02d_nat: "n < 100 \<Longrightarrow> printf_02d (int n) = [digit_char (n div 10), digit_char (n mod 10)]"
proof (cases "n < 10")
  case True
  then show ?thesis
    by (simp add: printf_02d_def dec_digits_one digit_char_0)
next
  case False
  assume "n < 100"
  with False show ?thesis
    by (simp add: printf_02d_def dec_digits_two)
qed

lemma length_printf_02d_nat: "n < 100 \<Longrightarrow> length (printf_02d (int n)) = 2"
  by (simp add: printf_02d_nat)

lemma length_printf_d_year: "1000 \<le> n \<Longrightarrow> n < 10000 \<Longrightarrow> length (printf_d (int n)) = 4"
  by (simp add: printf_d_def dec_digits_four)

lemma daysInMonths_le_31: "k < 12 \<Longrightarrow> unat (daysInMonths leap ! k) \<le> 31"
proof -
  assume "k < 12"
  then have "daysInMonths leap ! k \<in> set (daysInMonths leap)"
    by (simp add: length_daysInMonths)
  moreover have "\<forall>x \<in> set (daysInMonths leap). unat x \<le> 31"
    by (simp add: daysInMonths_def Let_def)
  ultimately show ?thesis
    by blast
qed

lemma month_loop_Inr:
  "month_loop leap d month = Inr (d', month') \<Longrightarrow>
   unat month' < 12 \<and> unat d' \<le> unat (daysInMonths leap ! unat month')"
proof (induction leap d month rule: month_loop.induct)
  case (1 leap d month)
  from "1.prems" have m: "\<not> 12 \<le> unat month"
    by (subst (asm) month_loop.simps) (simp split: if_splits)
  show ?case
  proof (cases "daysInMonths leap ! unat month < ucast d")
    case True
    with m "1.prems"
    have "month_loop leap (ucast (ucast d - daysInMonths leap ! unat month)) (month + 1) = Inr (d', month')"
      by (subst (asm) month_loop.simps) simp
    with m True show ?thesis
      by (rule "1.IH")
  next
    case False
    with m "1.prems" have "d' = d" "month' = month"
      by (subst (asm) month_loop.simps, simp)+
    with m False show ?thesis
      by (simp add: loop_test)
  qed
qed

lemma date_fields_Inr:
  assumes "date_fields d = Inr (y, m, dd)"
  shows "y = year_of d \<and> unat m < 12 \<and> unat dd \<le> 31
         \<and> month_loop (isLeapYear (year_of d)) (dayOfYear_of d) 0 = Inr (dd, m)"
proof -
  from assms have r: "month_loop (isLeapYear (year_of d)) (dayOfYear_of d) 0 = Inr (dd, m)" and y: "y = year_of d"
    by (auto simp: date_fields_def Let_def fault_bind_def split: sum.splits)
  from month_loop_Inr [OF r] have "unat m < 12" "unat dd \<le> unat (daysInMonths (isLeapYear (year_of d)) ! unat m)"
    by simp_all
  moreover from this have "unat dd \<le> 31"
    using daysInMonths_le_31 [of "unat m" "isLeapYear (year_of d)"] by simp
  ultimately show ?thesis using r y by simp
qed

lemma DecodeDateTime_layout:
  assumes "date_fields d = Inr (y, m, dd)"
  shows "DecodeDateTime d t =
           Inr (date_text (unat y) (unat m) (unat dd)
                @ time_text (unat t div 1800) (unat t mod 1800 div 30) (unat t mod 1800 mod 30 div 2))"
    and "length (date_text (unat y) (unat m) (unat dd)) = 11"
    and "length (printf_d (int (unat y))) = 4"
    and "length (printf_02d (int (unat m))) = 2"
    and "length (printf_02d (int (unat dd))) = 2"
proof -
  obtain h mi s where tf: "time_fields t = (h, mi, s)"
    by (cases "time_fields t") auto
  note T = time_fields_nat [OF tf]
  have lt: "unat t < 65536" using unsigned_less [of t] by simp
  note D = date_fields_Inr [OF assms]
  have yb: "2000 \<le> unat y" "unat y < 2128"
    using D yearOffset_of_less [of d] by (simp_all add: unat_year_of)
  have hb: "unat h \<le> 36" using T lt by simp
  have mb: "unat mi < 60" using T by simp
  have sb: "unat s < 15" using T by simp
  have S: "sint y = int (unat y)" "sint m = int (unat m)" "sint h = int (unat h)"
    "sint mi = int (unat mi)" "sint s = int (unat s)"
    using yb D hb mb sb by (simp_all add: sint_of_unat_less)
  show ly: "length (printf_d (int (unat y))) = 4"
    using yb by (simp add: length_printf_d_year del: of_nat_unat)
  show lm: "length (printf_02d (int (unat m))) = 2"
    using D by (simp add: length_printf_02d_nat del: of_nat_unat)
  show ld: "length (printf_02d (int (unat dd))) = 2"
    using D by (simp add: length_printf_02d_nat del: of_nat_unat)
  show ldt: "length (date_text (unat y) (unat m) (unat dd)) = 11"
    by (simp add: date_text_def ly lm ld del: of_nat_unat)
  have lh: "length (printf_02d (int (unat h))) = 2" "length (printf_02d (int (unat mi))) = 2"
     "length (printf_02d (int (unat s))) = 2"
    using hb mb sb by (simp_all add: length_printf_02d_nat del: of_nat_unat)
  have ltt: "length (time_text (unat h) (unat mi) (unat s)) = 9"
    by (simp add: time_text_def lh del: of_nat_unat)
  have "snprintf_timestamp y m dd h mi s = date_text (unat y) (unat m) (unat dd) @ time_text (unat h) (unat mi) (unat s)"
    unfolding snprintf_timestamp_def S uint_nat
    using ldt ltt by (simp add: date_text_def time_text_def del: of_nat_unat)
  then show "DecodeDateTime d t =
           Inr (date_text (unat y) (unat m) (unat dd)
                @ time_text (unat t div 1800) (unat t mod 1800 div 30) (unat t mod 1800 mod 30 div 2))"
    using assms tf T by (simp add: DecodeDateTime_def fault_bind_def)
qed


subsection \<open>The scalar decoders and examples of the text\<close>

lemma unat_shift_or: "unat (shift_or hi lo) = unat hi * 256 + unat lo"
proof -
  have hi: "unat hi < 2 ^ 8"
    using unsigned_less [of hi] by simp
  have lo: "unat lo < 2 ^ 8"
    using unsigned_less [of lo] by simp
  have "push_bit 8 (unat hi) AND unat lo = 0"
    by (rule bit_eqI) (use lo in \<open>auto simp: bit_simps dest: bit_imp_le_length\<close>)
  then have *: "push_bit 8 (unat hi) OR unat lo = unat hi * 256 + unat lo"
    by (simp flip: disjunctive_add_eq_or add: push_bit_eq_mult)
  have "unat hi * 256 < 2 ^ 32"
    using hi by simp
  then have "unat (push_bit 8 (ucast hi :: uint)) = push_bit 8 (unat hi)"
    by (simp add: unat_word_ariths unat_ucast_8_32 push_bit_eq_mult)
  then show ?thesis
    unfolding shift_or_def by (simp only: unsigned_or_eq unat_ucast_8_32 *)
qed

lemma sint_shift_or: "sint (shift_or hi lo) = uint hi * 256 + uint lo"
proof -
  have hi: "unat hi < 256"
    using unsigned_less [of hi] by simp
  have lo: "unat lo < 256"
    using unsigned_less [of lo] by simp
  have "unat (shift_or hi lo) < 65536"
    using hi lo by (simp add: unat_shift_or)
  then have "sint (shift_or hi lo) = int (unat hi * 256 + unat lo)"
    by (simp only: sint_of_unat_less unat_shift_or)
  then show ?thesis
    by simp
qed

lemma time_text_examples:
  "time_text 0 0 0 = ''00:00:00Z''" "time_text 0 59 14 = ''00:59:14Z''"
  "time_text 1 0 0 = ''01:00:00Z''" "time_text 23 59 14 = ''23:59:14Z''"
  "time_text (Suc 0) 0 0 = ''01:00:00Z''" "time_text 24 0 0 = ''24:00:00Z''"
  by code_simp+

lemma date_text_example:
  "date_text 2001 0 1 = ''2001-00-01T''" "date_text 2001 0 (Suc 0) = ''2001-00-01T''"
  by code_simp+

lemma month_loop_day_60:
  "month_loop True 60 0 = Inr (29, 1)" "month_loop False 60 0 = Inr (1, 2)"
  by code_simp+

lemma daysInMonths_February:
  "daysInMonths leap ! 1 = (if leap then 29 else 28)"
  by (simp add: daysInMonths_def Let_def)

subsection \<open>processContent\<close>

lemma scenario_values:
  "to_uint16 0x19 0x64 = 0x1964" "to_uint16 0x07 0x32 = 0x0732" "to_uint16 0 2 = 2"
  "to_uint16 0 0 = 0" "to_uint16 0x01 0xFF = 0x01FF"
  "DecodeDateTime 0x0732 0x1964 = Inr ''2003-10-02T03:36:10Z''"
  "DecodeDateTime 0x01FF 0 = Inl TableOverrun"
  "toIndicationU 0x03 0xE8 = Double_div 1000 10" "toTemperature 0x27 0x0F = Double_div 9999 100"
  by code_simp+

lemmas processContent_defs =
  processContent_def debugPayload_def decode_num_measurements_def decode_status_def
  decode_device_date_def decode_previous_consumption_def
  decode_previous_average_ambient_temperature_def decode_current_consumption_def
  decode_average_ambient_temperature_def vector_at_def fault_bind_def
  addSpecialExplanation_def setNumericValue_def Let_def

lemma segments_fitting_cases:
  "n < 2 \<Longrightarrow> segments_fitting n = 0"
  "2 \<le> n \<Longrightarrow> n < 4 \<Longrightarrow> segments_fitting n = 1"
  "4 \<le> n \<Longrightarrow> n < 8 \<Longrightarrow> segments_fitting n = 2"
  "8 \<le> n \<Longrightarrow> n < 10 \<Longrightarrow> segments_fitting n = 3"
  "10 \<le> n \<Longrightarrow> n < 12 \<Longrightarrow> segments_fitting n = 4"
  "12 \<le> n \<Longrightarrow> n < 14 \<Longrightarrow> segments_fitting n = 5"
  "14 \<le> n \<Longrightarrow> n < 16 \<Longrightarrow> segments_fitting n = 6"
  "16 \<le> n \<Longrightarrow> segments_fitting n = 7"
  by (simp_all add: segments_fitting_def segment_ends_def)

lemma vector_at_in_range:
  "0 \<le> i \<Longrightarrow> i < int (length bytes) \<Longrightarrow> vector_at bytes i = Inr (bytes ! nat i)"
  by (simp add: vector_at_def)

lemma vector_at_first:
  "2 \<le> length bytes \<Longrightarrow> vector_at bytes 0 = Inr (bytes ! 0)"
  by (cases bytes) (simp_all add: vector_at_def)

lemmas processContent_steps =
  processContent_def debugPayload_def decode_num_measurements_def decode_status_def
  decode_device_date_def decode_previous_consumption_def
  decode_previous_average_ambient_temperature_def decode_current_consumption_def
  decode_average_ambient_temperature_def vector_at_in_range vector_at_first fault_bind_def
  addSpecialExplanation_def setNumericValue_def Let_def

text \<open>
  A run that ends without a fault has explained exactly the segments that lie within the
  payload, in order, and has stored exactly the numeric fields of those among them that
  carry a value.
\<close>

lemma processContent_prefix:
  assumes "mfct_0f_index t \<noteq> - 1" and "processContent render t s = Inr s'"
  shows "explained_ranges s' = explained_ranges s
           @ take (segments_fitting (length (mfct_data t)))
               (map (\<lambda>b. (b + (header_size t + mfct_0f_index t), 2)) segment_starts)
         \<and> dom (numeric_values s') = dom (numeric_values s)
               \<union> set (take (segments_fitting (length (mfct_data t)) - 3) value_fields)"
proof -
  let ?n = "length (mfct_data t)"
  note defs = processContent_steps segments_fitting_cases explained_ranges_def
    segment_starts_def value_fields_def
  consider "?n < 2" | "2 \<le> ?n" "?n < 4" | "4 \<le> ?n" "?n < 8" | "8 \<le> ?n" "?n < 10"
    | "10 \<le> ?n" "?n < 12" | "12 \<le> ?n" "?n < 14" | "14 \<le> ?n" "?n < 16" | "16 \<le> ?n"
    by linarith
  then show ?thesis
  proof cases
    case 1
    from 1 assms show ?thesis
      by (auto simp: defs)
  next
    case 2
    from 2 assms show ?thesis
      by (auto simp: defs)
  next
    case 3
    from 3 assms show ?thesis
      by (auto simp: defs)
  next
    case 4
    from 4 assms show ?thesis
      by (auto simp: defs split: sum.splits)
  next
    case 5
    from 5 assms show ?thesis
      by (auto simp: defs split: sum.splits)
  next
    case 6
    from 6 assms show ?thesis
      by (auto simp: defs split: sum.splits)
  next
    case 7
    from 7 assms show ?thesis
      by (auto simp: defs split: sum.splits)
  next
    case 8
    from 8 assms show ?thesis
      by (auto simp: defs split: sum.splits)
  qed
qed

text \<open>
  The only fault of a run is the fault of \<open>DecodeDateTime\<close> on the third segment; no read
  of the vector is out of range.
\<close>

lemma processContent_fault_iff:
  "processContent render t s = Inl e \<longleftrightarrow>
     mfct_0f_index t \<noteq> - 1 \<and> 8 \<le> length (mfct_data t)
     \<and> DecodeDateTime (to_uint16 (mfct_data t ! 7) (mfct_data t ! 6))
          (to_uint16 (mfct_data t ! 5) (mfct_data t ! 4)) = Inl e"
proof -
  let ?n = "length (mfct_data t)"
  consider "mfct_0f_index t = - 1" | "?n < 2" | "2 \<le> ?n" "?n < 4" | "4 \<le> ?n" "?n < 8"
    | "8 \<le> ?n" "?n < 10" | "10 \<le> ?n" "?n < 12" | "12 \<le> ?n" "?n < 14"
    | "14 \<le> ?n" "?n < 16" | "16 \<le> ?n"
    by linarith
  then show ?thesis
  proof cases
    case 1
    then show ?thesis
      by (simp add: processContent_def)
  next
    case 2
    then show ?thesis
      by (simp add: processContent_steps)
  next
    case 3
    then show ?thesis
      by (simp add: processContent_steps)
  next
    case 4
    then show ?thesis
      by (simp add: processContent_steps)
  next
    case 5
    then show ?thesis
      by (simp add: processContent_steps split: sum.splits)
  next
    case 6
    then show ?thesis
      by (simp add: processContent_steps split: sum.splits)
  next
    case 7
    then show ?thesis
      by (simp add: processContent_steps split: sum.splits)
  next
    case 8
    then show ?thesis
      by (simp add: processContent_steps split: sum.splits)
  next
    case 9
    then show ?thesis
      by (simp add: processContent_steps split: sum.splits)
  qed
qed

lemma DecodeDateTime_fault: "DecodeDateTime d t = Inl e \<Longrightarrow> e = TableOverrun"
proof -
  assume a: "DecodeDateTime d t = Inl e"
  have "month_loop leap dd m = Inl e \<Longrightarrow> e = TableOverrun" for leap dd m
  proof (induction leap dd m rule: month_loop.induct)
    case (1 leap dd m)
    from "1.prems" show ?case
      by (subst (asm) month_loop.simps) (auto split: if_splits dest: "1.IH")
  qed
  with a show ?thesis
    by (auto simp: DecodeDateTime_def date_fields_def fault_bind_def Let_def split: sum.splits prod.splits)
qed

text \<open>
  A date whose day-of-year exceeds the days of its year makes \<open>DecodeDateTime\<close> read past
  the month table, and with it every run whose payload holds the third segment.
\<close>

lemma DecodeDateTime_overrun:
  assumes "days_before (isLeapYear (year_of d)) 12 < unat (dayOfYear_of d)"
  shows "DecodeDateTime d t = Inl TableOverrun"
proof -
  have "days_before (isLeapYear (year_of d)) 12
        < unat (dayOfYear_of d) + days_before (isLeapYear (year_of d)) (unat (0 :: uint))"
    using assms by (simp add: days_before_0)
  then have "month_loop (isLeapYear (year_of d)) (dayOfYear_of d) 0 = Inl TableOverrun"
    by (intro month_loop_overrun) simp_all
  then show ?thesis
    by (simp add: DecodeDateTime_def date_fields_def Let_def fault_bind_def)
qed

lemma processContent_overrun:
  assumes "mfct_0f_index t \<noteq> - 1" and "8 \<le> length (mfct_data t)"
    and "366 < unat (dayOfYear_of (to_uint16 (mfct_data t ! 7) (mfct_data t ! 6)))"
  shows "processContent render t s = Inl TableOverrun"
proof -
  let ?date = "to_uint16 (mfct_data t ! 7) (mfct_data t ! 6)"
  have "days_before (isLeapYear (year_of ?date)) 12 < unat (dayOfYear_of ?date)"
    using assms(3) by (simp add: days_before_12)
  then have "DecodeDateTime ?date (to_uint16 (mfct_data t ! 5) (mfct_data t ! 4))
             = Inl TableOverrun"
    by (rule DecodeDateTime_overrun)
  with assms(1,2) show ?thesis
    by (simp add: processContent_fault_iff)
qed

text \<open>
  Without that fault, that is for a payload shorter than eight bytes or with a date that
  decodes, the run ends with exactly the segments that fit.
\<close>

lemma processContent_prefix_without_overrun:
  assumes "mfct_0f_index t \<noteq> - 1"
    and "length (mfct_data t) < 8
         \<or> (\<exists>x. DecodeDateTime (to_uint16 (mfct_data t ! 7) (mfct_data t ! 6))
                  (to_uint16 (mfct_data t ! 5) (mfct_data t ! 4)) = Inr x)"
  shows "\<exists>s'. processContent render t s = Inr s'
           \<and> explained_ranges s' = explained_ranges s
               @ take (segments_fitting (length (mfct_data t)))
                   (map (\<lambda>b. (b + (header_size t + mfct_0f_index t), 2)) segment_starts)
           \<and> dom (numeric_values s') = dom (numeric_values s)
               \<union> set (take (segments_fitting (length (mfct_data t)) - 3) value_fields)"
proof (cases "processContent render t s")
  case (Inl e)
  then have "8 \<le> length (mfct_data t)"
    and "DecodeDateTime (to_uint16 (mfct_data t ! 7) (mfct_data t ! 6))
           (to_uint16 (mfct_data t ! 5) (mfct_data t ! 4)) = Inl e"
    by (simp_all add: processContent_fault_iff)
  with assms(2) show ?thesis
    by auto
next
  case (Inr s')
  with processContent_prefix [OF assms(1) Inr] show ?thesis
    by simp
qed

subsection \<open>The walk through the months, seen in the text\<close>

lemma printf_02d_examples:
  "printf_02d 1 = ''01''" "printf_02d 2 = ''02''" "printf_02d 29 = ''29''"
  "printf_02d 14 = ''14''" "printf_02d 0 = ''00''" "printf_02d 59 = ''59''" "printf_02d 23 = ''23''"
  by code_simp+

text \<open>
  The year is 2000 plus the seven bits above the day-of-year; it is treated as a leap year
  iff it is divisible by 4 and (not divisible by 100 or divisible by 400); the entry of
  February in the month table is 29 in a leap year and 28 otherwise. So day-of-year 60
  ends the loop in a leap year at the entry of February with day 29, and otherwise at the
  entry of March with day 1. The variable \<open>month\<close> is the index into the table, counted from
  zero: 1 is February's entry and 2 is March's.
\<close>

lemma leap_year_rule:
  "unat (year_of d) = 2000 + unat (yearOffset_of d)
   \<and> unat (yearOffset_of d) = unat d div 512
   \<and> unat (yearOffset_of d) < 128
   \<and> (isLeapYear (year_of d) \<longleftrightarrow>
        4 dvd unat (year_of d) \<and> (\<not> 100 dvd unat (year_of d) \<or> 400 dvd unat (year_of d)))
   \<and> daysInMonths (isLeapYear (year_of d)) ! 1 = (if isLeapYear (year_of d) then 29 else 28)
   \<and> (dayOfYear_of d = 60 \<longrightarrow>
        date_fields d = (if isLeapYear (year_of d) then Inr (year_of d, 1, 29)
                         else Inr (year_of d, 2, 1)))"
proof (intro conjI)
  show "unat (year_of d) = 2000 + unat (yearOffset_of d)"
    by (rule unat_year_of)
  show "unat (yearOffset_of d) = unat d div 512"
    by (rule unat_yearOffset_of)
  show "unat (yearOffset_of d) < 128"
    by (rule yearOffset_of_less)
  show "isLeapYear (year_of d) \<longleftrightarrow>
        4 dvd unat (year_of d) \<and> (\<not> 100 dvd unat (year_of d) \<or> 400 dvd unat (year_of d))"
    by (rule isLeapYear_dvd)
  show "daysInMonths (isLeapYear (year_of d)) ! 1 = (if isLeapYear (year_of d) then 29 else 28)"
    by (rule daysInMonths_February)
  show "dayOfYear_of d = 60 \<longrightarrow>
        date_fields d = (if isLeapYear (year_of d) then Inr (year_of d, 1, 29)
                         else Inr (year_of d, 2, 1))"
    by (simp add: date_fields_def Let_def fault_bind_def month_loop_day_60)
qed

text \<open>Day 60 of the years 2024 and 2000 (leap), 2023 and 2100 (not leap).\<close>

lemma leap_year_rule_examples:
  "dayOfYear_of 0x303C = 60 \<and> date_fields 0x303C = Inr (2024, 1, 29)
   \<and> dayOfYear_of 0x2E3C = 60 \<and> date_fields 0x2E3C = Inr (2023, 2, 1)
   \<and> dayOfYear_of 0xC83C = 60 \<and> date_fields 0xC83C = Inr (2100, 2, 1)
   \<and> dayOfYear_of 0x003C = 60 \<and> date_fields 0x003C = Inr (2000, 1, 29)
   \<and> DecodeDateTime 0x303C 0 = Inr ''2024-01-29T00:00:00Z''
   \<and> DecodeDateTime 0x2E3C 0 = Inr ''2023-02-01T00:00:00Z''"
proof -
  have h: "dayOfYear_of 0x303C = 60" "dayOfYear_of 0x2E3C = 60" "dayOfYear_of 0xC83C = 60"
    "dayOfYear_of 0x003C = 60"
    by code_simp+
  have y: "year_of 0x303C = 2024" "year_of 0x2E3C = 2023" "year_of 0xC83C = 2100"
    "year_of 0x003C = 2000"
    by code_simp+
  have l: "isLeapYear 2024" "\<not> isLeapYear 2023" "\<not> isLeapYear 2100" "isLeapYear 2000"
    by code_simp+
  have s: "DecodeDateTime 0x303C 0 = Inr ''2024-01-29T00:00:00Z''"
    "DecodeDateTime 0x2E3C 0 = Inr ''2023-02-01T00:00:00Z''"
    by code_simp+
  show ?thesis
    using h s leap_year_rule [of "0x303C"] leap_year_rule [of "0x2E3C"]
      leap_year_rule [of "0xC83C"] leap_year_rule [of "0x003C"]
    by (simp add: y l)
qed

text \<open>
  For every encoded date whose day-of-year is between 1 and 365 (366 in a leap year),
  the two characters of the day in the written timestamp are the day-of-year minus the
  lengths of the \<open>k\<close> whole months that precede it, with nothing added; the two characters
  of the month are \<open>k\<close> itself.
\<close>

lemma day_field_is_remaining_count:
  assumes "1 \<le> unat (dayOfYear_of d)"
    and "unat (dayOfYear_of d) \<le> (if isLeapYear (year_of d) then 366 else 365)"
  shows "\<exists>k s. k < 12
           \<and> days_before (isLeapYear (year_of d)) k < unat (dayOfYear_of d)
           \<and> unat (dayOfYear_of d) \<le> days_before (isLeapYear (year_of d)) (Suc k)
           \<and> DecodeDateTime d t = Inr s
           \<and> take 2 (drop 8 s)
               = printf_02d (int (unat (dayOfYear_of d) - days_before (isLeapYear (year_of d)) k))
           \<and> take 2 (drop 5 s) = printf_02d (int k)"
proof -
  let ?leap = "isLeapYear (year_of d)"
  let ?doy = "unat (dayOfYear_of d)"
  have "unat (0 :: uint) < 12"
    by simp
  moreover have "?doy + days_before ?leap (unat (0 :: uint)) \<le> days_before ?leap 12"
    using assms(2) by (simp add: days_before_12 days_before_0)
  ultimately obtain dd m where r: "month_loop ?leap (dayOfYear_of d) 0 = Inr (dd, m)"
    and m: "unat m < 12"
    and dd: "1 \<le> unat dd" "unat dd \<le> unat (daysInMonths ?leap ! unat m)"
    and sum: "unat dd + days_before ?leap (unat m) = ?doy + days_before ?leap (unat (0 :: uint))"
    using month_loop_in_range [OF _ assms(1), of 0 ?leap] by blast
  from sum have eq: "unat dd = ?doy - days_before ?leap (unat m)"
    and lt: "days_before ?leap (unat m) < ?doy"
    using dd(1) by (simp_all add: days_before_0)
  have le: "?doy \<le> days_before ?leap (Suc (unat m))"
    using sum dd(2) m by (simp add: days_before_Suc days_before_0)
  have df: "date_fields d = Inr (year_of d, m, dd)"
    using r by (simp add: date_fields_def Let_def fault_bind_def)
  define s where "s = date_text (unat (year_of d)) (unat m) (unat dd)
      @ time_text (unat t div 1800) (unat t mod 1800 div 30) (unat t mod 1800 mod 30 div 2)"
  have D: "DecodeDateTime d t = Inr s"
    unfolding s_def by (rule DecodeDateTime_layout(1) [OF df])
  have ly: "length (printf_d (int (unat (year_of d)))) = 4"
    and lm: "length (printf_02d (int (unat m))) = 2"
    and ld: "length (printf_02d (int (unat dd))) = 2"
    by (rule DecodeDateTime_layout [OF df])+
  have "take 2 (drop 8 s) = printf_02d (int (unat dd))"
    unfolding s_def date_text_def using ly lm ld by (simp del: of_nat_unat)
  moreover have "take 2 (drop 5 s) = printf_02d (int (unat m))"
    unfolding s_def date_text_def using ly lm by (simp del: of_nat_unat)
  ultimately show ?thesis
    using m lt le D unfolding eq by blast
qed

lemma day_field_is_remaining_count_example:
  "1 \<le> unat (dayOfYear_of 0x0732)
   \<and> unat (dayOfYear_of 0x0732) \<le> (if isLeapYear (year_of 0x0732) then 366 else 365)
   \<and> DecodeDateTime 0x0732 0x1964 = Inr ''2003-10-02T03:36:10Z''
   \<and> (\<exists>k s. k < 12
           \<and> days_before (isLeapYear (year_of 0x0732)) k < unat (dayOfYear_of 0x0732)
           \<and> unat (dayOfYear_of 0x0732) \<le> days_before (isLeapYear (year_of 0x0732)) (Suc k)
           \<and> DecodeDateTime 0x0732 0x1964 = Inr s
           \<and> take 2 (drop 8 s)
               = printf_02d (int (unat (dayOfYear_of 0x0732)
                                  - days_before (isLeapYear (year_of 0x0732)) k))
           \<and> take 2 (drop 5 s) = printf_02d (int k))"
proof -
  have e: "dayOfYear_of 0x0732 = 306" "year_of 0x0732 = 2003" "\<not> isLeapYear 2003"
    by code_simp+
  have h1: "1 \<le> unat (dayOfYear_of 0x0732)"
    by (simp add: e)
  have h2: "unat (dayOfYear_of 0x0732) \<le> (if isLeapYear (year_of 0x0732) then 366 else 365)"
    by (simp add: e)
  have r: "DecodeDateTime 0x0732 0x1964 = Inr ''2003-10-02T03:36:10Z''"
    by code_simp
  show ?thesis
    using h1 h2 r day_field_is_remaining_count [OF h1 h2, of "0x1964"] by blast
qed

section \<open>The claims\<close>

subsection \<open>Scalar decoders\<close>

text \<open>
  C3. For every pair of bytes \<open>hi\<close>, \<open>lo\<close> the indication decoder returns the double
  division of \<open>hi * 256 + lo\<close> by 10 and the temperature decoder the double division of
  \<open>hi * 256 + lo\<close> by 100; both are total functions of the two bytes.
\<close>

theorem scalar_decoders_exact:
  "toIndicationU hi lo = Double_div (uint hi * 256 + uint lo) 10
   \<and> toTemperature hi lo = Double_div (uint hi * 256 + uint lo) 100"
  by (simp add: toIndicationU_def toTemperature_def sint_shift_or)

subsection \<open>The date\<close>

text \<open>
  C6 says that day-of-year 60 decodes to February 29 in a leap year and to March 1
  otherwise. The leap-year rule and the table are as the claim states them
  (\<open>leap_year_rule\<close>), but the month that is written is the index into the table, one less
  than the number of the month: for every date with day-of-year 60 the timestamp has
  \<open>01-29\<close> in a leap year and \<open>02-01\<close> otherwise.
\<close>

theorem day_60_month_text:
  assumes "dayOfYear_of d = 60"
  shows "\<exists>s. DecodeDateTime d t = Inr s
           \<and> take 5 (drop 5 s) = (if isLeapYear (year_of d) then ''01-29'' else ''02-01'')"
proof -
  let ?leap = "isLeapYear (year_of d)"
  let ?m = "if ?leap then 1 else 2 :: uint"
  let ?dd = "if ?leap then 29 else 1 :: ushort"
  have df: "date_fields d = Inr (year_of d, ?m, ?dd)"
    using assms by (simp add: date_fields_def Let_def fault_bind_def month_loop_day_60)
  define s where "s = date_text (unat (year_of d)) (unat ?m) (unat ?dd)
      @ time_text (unat t div 1800) (unat t mod 1800 div 30) (unat t mod 1800 mod 30 div 2)"
  have D: "DecodeDateTime d t = Inr s"
    unfolding s_def by (rule DecodeDateTime_layout(1) [OF df])
  have ly: "length (printf_d (int (unat (year_of d)))) = 4"
    by (rule DecodeDateTime_layout(3) [OF df])
  have "take 5 (drop 5 s) = printf_02d (int (unat ?m)) @ ''-'' @ printf_02d (int (unat ?dd))"
    unfolding s_def date_text_def using ly DecodeDateTime_layout(4,5) [OF df]
    by (simp del: of_nat_unat)
  also have "\<dots> = (if ?leap then ''01-29'' else ''02-01'')"
    by (simp add: printf_02d_examples)
  finally show ?thesis
    using D by blast
qed

theorem day_60_month_text_witness:
  "dayOfYear_of 0x303C = 60 \<and> isLeapYear (year_of 0x303C)
   \<and> DecodeDateTime 0x303C 0 = Inr ''2024-01-29T00:00:00Z''
   \<and> dayOfYear_of 0x2E3C = 60 \<and> \<not> isLeapYear (year_of 0x2E3C)
   \<and> DecodeDateTime 0x2E3C 0 = Inr ''2023-02-01T00:00:00Z''
   \<and> (\<exists>s. DecodeDateTime 0x303C 0 = Inr s
            \<and> take 5 (drop 5 s) = (if isLeapYear (year_of 0x303C) then ''01-29'' else ''02-01''))
   \<and> (\<exists>s. DecodeDateTime 0x2E3C 0 = Inr s
            \<and> take 5 (drop 5 s) = (if isLeapYear (year_of 0x2E3C) then ''01-29'' else ''02-01''))"
proof -
  have h: "dayOfYear_of 0x303C = 60" "dayOfYear_of 0x2E3C = 60"
    by code_simp+
  have l: "isLeapYear (year_of 0x303C)" "\<not> isLeapYear (year_of 0x2E3C)"
    by code_simp+
  have s: "DecodeDateTime 0x303C 0 = Inr ''2024-01-29T00:00:00Z''"
    "DecodeDateTime 0x2E3C 0 = Inr ''2023-02-01T00:00:00Z''"
    by code_simp+
  show ?thesis
    using h l s day_60_month_text [OF h(1), of 0] day_60_month_text [OF h(2), of 0]
    by (intro conjI)
qed

text \<open>
  C10. For every encoded date whose day-of-year is between 1 and 365 (366 in a leap year)
  the loop over the month table ends without reading outside the table, after as many
  iterations as the final month index, which is at most 11, and with a remaining day count
  of at least 1.
\<close>

theorem month_loop_within_table:
  assumes "1 \<le> unat (dayOfYear_of d)"
    and "unat (dayOfYear_of d) \<le> (if isLeapYear (year_of d) then 366 else 365)"
  shows "\<exists>dd m. month_loop (isLeapYear (year_of d)) (dayOfYear_of d) 0 = Inr (dd, m)
           \<and> month_loop_iterations (isLeapYear (year_of d)) (dayOfYear_of d) 0 = unat m
           \<and> unat m \<le> 11 \<and> 1 \<le> unat dd"
proof -
  let ?leap = "isLeapYear (year_of d)"
  have "unat (0 :: uint) < 12"
    by simp
  moreover
  have "unat (dayOfYear_of d) + days_before ?leap (unat (0 :: uint)) \<le> days_before ?leap 12"
    using assms(2) by (simp add: days_before_12 days_before_0)
  ultimately obtain dd m where "month_loop ?leap (dayOfYear_of d) 0 = Inr (dd, m)"
    "unat m < 12" "1 \<le> unat dd"
    "month_loop_iterations ?leap (dayOfYear_of d) 0 = unat m - unat (0 :: uint)"
    using month_loop_in_range [OF _ assms(1), of 0 ?leap] by blast
  then show ?thesis
    by simp
qed

theorem month_loop_within_table_witness:
  "1 \<le> unat (dayOfYear_of 0x0732)
   \<and> unat (dayOfYear_of 0x0732) \<le> (if isLeapYear (year_of 0x0732) then 366 else 365)
   \<and> month_loop (isLeapYear (year_of 0x0732)) (dayOfYear_of 0x0732) 0 = Inr (2, 10)
   \<and> month_loop_iterations (isLeapYear (year_of 0x0732)) (dayOfYear_of 0x0732) 0 = 10"
proof -
  have e: "dayOfYear_of 0x0732 = 306" "year_of 0x0732 = 2003" "\<not> isLeapYear 2003"
    by code_simp+
  have h1: "1 \<le> unat (dayOfYear_of 0x0732)"
    by (simp add: e)
  have h2: "unat (dayOfYear_of 0x0732) \<le> (if isLeapYear (year_of 0x0732) then 366 else 365)"
    by (simp add: e)
  have r: "month_loop False 306 0 = Inr (2, 10)"
    by code_simp
  show ?thesis
    using h1 h2 month_loop_within_table [OF h1 h2] by (simp add: e r)
qed

text \<open>
  C9 speaks of every day-of-year in range, and the range of the field is 1 to 366. For
  day-of-year 366 of a year that is not a leap year no timestamp is written: the loop
  subtracts all twelve months, one day is left, and the thirteenth entry of the table is
  read. For the days that the table can place, the day written is the remaining count
  (\<open>day_field_is_remaining_count\<close>).
\<close>

theorem day_366_common_year_overruns:
  assumes "unat (dayOfYear_of d) = 366" and "\<not> isLeapYear (year_of d)"
  shows "DecodeDateTime d t = Inl TableOverrun"
proof -
  have "days_before (isLeapYear (year_of d)) 12 < unat (dayOfYear_of d)"
    using assms by (simp add: days_before_12)
  then show ?thesis
    by (rule DecodeDateTime_overrun)
qed

theorem day_366_common_year_overruns_witness:
  "unat (dayOfYear_of 0x036E) = 366 \<and> \<not> isLeapYear (year_of 0x036E)
   \<and> DecodeDateTime 0x036E 0 = Inl TableOverrun"
proof -
  have e: "dayOfYear_of 0x036E = 366" "year_of 0x036E = 2001" "\<not> isLeapYear 2001"
    by code_simp+
  have h1: "unat (dayOfYear_of 0x036E) = 366"
    by (simp add: e)
  have h2: "\<not> isLeapYear (year_of 0x036E)"
    by (simp add: e)
  show ?thesis
    using h1 h2 day_366_common_year_overruns [OF h1 h2, of 0] by (intro conjI)
qed

text \<open>
  C2 asks for a reported failure and no read past the month table when the day-of-year
  exceeds 366. The source has no test before the read: for every such date the loop
  subtracts all twelve months, still has days left, and reads the thirteenth entry of the
  table of twelve.
\<close>

theorem date_beyond_366_overruns_table:
  assumes "366 < unat (dayOfYear_of d)"
  shows "DecodeDateTime d t = Inl TableOverrun"
proof -
  have "days_before (isLeapYear (year_of d)) 12
        < unat (dayOfYear_of d) + days_before (isLeapYear (year_of d)) (unat (0 :: uint))"
    using assms by (simp add: days_before_12 days_before_0)
  then have "month_loop (isLeapYear (year_of d)) (dayOfYear_of d) 0 = Inl TableOverrun"
    by (intro month_loop_overrun) simp_all
  then show ?thesis
    by (simp add: DecodeDateTime_def date_fields_def Let_def fault_bind_def)
qed

theorem date_beyond_366_overruns_table_witness:
  "366 < unat (dayOfYear_of 0x01FF) \<and> DecodeDateTime 0x01FF 0 = Inl TableOverrun"
proof -
  have "dayOfYear_of 0x01FF = 511"
    by code_simp
  then have h: "366 < unat (dayOfYear_of 0x01FF)"
    by simp
  show ?thesis
    using h date_beyond_366_overruns_table [OF h, of 0] by simp
qed

subsection \<open>The time\<close>

text \<open>
  C4, as the spec states it, fails: with the date \<open>0x0201\<close> the time 1799 is written with
  the minute 59, not 29.
\<close>

theorem time_examples_counterexample:
  "DecodeDateTime 0x0201 1799 = Inr ''2001-00-01T00:59:14Z''"
  by code_simp

text \<open>
  C4, amended. For every date that decodes, the text after the eleven characters of the
  date is \<open>00:00:00Z\<close> for the time 0 and \<open>01:00:00Z\<close> for 1800; for 1799 it has the hour 00
  and the minute 59, for 43199 the hour 23 and the minute 59, each followed by two
  characters for the seconds, which are left open here.
\<close>

theorem time_examples:
  assumes "date_fields d = Inr (y, m, dd)"
  shows "DecodeDateTime d 0 = Inr (date_text (unat y) (unat m) (unat dd) @ ''00:00:00Z'')
    \<and> DecodeDateTime d 1800 = Inr (date_text (unat y) (unat m) (unat dd) @ ''01:00:00Z'')
    \<and> (\<exists>ss. length ss = 2
          \<and> DecodeDateTime d 1799
              = Inr (date_text (unat y) (unat m) (unat dd) @ ''00:59:'' @ ss @ ''Z''))
    \<and> (\<exists>ss. length ss = 2
          \<and> DecodeDateTime d 43199
              = Inr (date_text (unat y) (unat m) (unat dd) @ ''23:59:'' @ ss @ ''Z''))
    \<and> length (date_text (unat y) (unat m) (unat dd)) = 11"
proof -
  let ?p = "date_text (unat y) (unat m) (unat dd)"
  have a: "DecodeDateTime d 0 = Inr (?p @ ''00:00:00Z'')"
    and b: "DecodeDateTime d 1800 = Inr (?p @ ''01:00:00Z'')"
    and c: "DecodeDateTime d 1799 = Inr (?p @ ''00:59:'' @ ''14'' @ ''Z'')"
    and e: "DecodeDateTime d 43199 = Inr (?p @ ''23:59:'' @ ''14'' @ ''Z'')"
    using DecodeDateTime_layout(1) [OF assms, of 0] DecodeDateTime_layout(1) [OF assms, of 1799]
      DecodeDateTime_layout(1) [OF assms, of 1800] DecodeDateTime_layout(1) [OF assms, of 43199]
    by (simp_all add: time_text_examples)
  have l: "length ''14'' = 2"
    by simp
  from c l have c': "\<exists>ss. length ss = 2 \<and> DecodeDateTime d 1799 = Inr (?p @ ''00:59:'' @ ss @ ''Z'')"
    by blast
  from e l have e': "\<exists>ss. length ss = 2 \<and> DecodeDateTime d 43199 = Inr (?p @ ''23:59:'' @ ss @ ''Z'')"
    by blast
  from a b c' e' DecodeDateTime_layout(2) [OF assms] show ?thesis
    by (intro conjI)
qed

theorem time_examples_witness:
  "date_fields 0x0201 = Inr (2001, 0, 1)
   \<and> DecodeDateTime 0x0201 0 = Inr ''2001-00-01T00:00:00Z''
   \<and> DecodeDateTime 0x0201 1800 = Inr ''2001-00-01T01:00:00Z''
   \<and> (\<exists>ss. length ss = 2 \<and> DecodeDateTime 0x0201 1799 = Inr (''2001-00-01T00:59:'' @ ss @ ''Z''))
   \<and> (\<exists>ss. length ss = 2 \<and> DecodeDateTime 0x0201 43199 = Inr (''2001-00-01T23:59:'' @ ss @ ''Z''))"
proof -
  have h: "date_fields 0x0201 = Inr (2001, 0, 1)"
    by code_simp
  show ?thesis
    using h time_examples [OF h] by (simp add: date_text_example)
qed

text \<open>
  C5, as the spec states it, fails: the time 43200 is no failure; the decoder writes the
  hour 24.
\<close>

theorem hour_24_counterexample:
  "DecodeDateTime 0x0201 43200 = Inr ''2001-00-01T24:00:00Z''"
  by code_simp

text \<open>
  C5, amended. For every encoded time above 43199 and every date that decodes, the decoder
  reports no failure: it writes the timestamp with the hour \<open>encodedTime div 1800\<close>, which
  lies between 24 and 36.
\<close>

theorem time_beyond_day_emitted:
  assumes "43199 < unat t" and "date_fields d = Inr (y, m, dd)"
  shows "DecodeDateTime d t =
           Inr (date_text (unat y) (unat m) (unat dd)
                @ time_text (unat t div 1800) (unat t mod 1800 div 30)
                    (unat t mod 1800 mod 30 div 2))
         \<and> 24 \<le> unat t div 1800 \<and> unat t div 1800 \<le> 36"
proof -
  have "unat t < 65536"
    using unsigned_less [of t] by simp
  with assms(1) have "43200 div 1800 \<le> unat t div 1800" "unat t div 1800 \<le> 65535 div 1800"
    by (simp_all only: div_le_mono Suc_leI less_Suc_eq_le [symmetric] flip: numeral_eq_Suc)
  then have "24 \<le> unat t div 1800 \<and> unat t div 1800 \<le> 36"
    by simp
  with DecodeDateTime_layout(1) [OF assms(2), of t] show ?thesis
    by simp
qed

theorem time_beyond_day_emitted_witness:
  "43199 < unat (43200 :: ushort) \<and> date_fields 0x0201 = Inr (2001, 0, 1)
   \<and> DecodeDateTime 0x0201 43200 = Inr ''2001-00-01T24:00:00Z''"
proof -
  have h1: "43199 < unat (43200 :: ushort)"
    by simp
  have h2: "date_fields 0x0201 = Inr (2001, 0, 1)"
    by code_simp
  show ?thesis
    using h1 h2 time_beyond_day_emitted [OF h1 h2]
    by (simp add: date_text_example time_text_examples)
qed

subsection \<open>The payload\<close>

text \<open>
  C8. When the telegram has no manufacturer data (\<open>mfct_0f_index\<close> is -1), processContent
  returns at once and without a fault: no explanation is added, no numeric field is set and
  nothing is logged; the state is the one it was given.
\<close>

theorem processContent_no_mfct_data:
  "mfct_0f_index t = - 1 \<Longrightarrow> processContent render t s = Inr s"
  by (simp add: processContent_def)

theorem processContent_no_mfct_data_witness:
  "mfct_0f_index \<lparr>mfct_0f_index = - 1, header_size = 10, mfct_data = [1, 2, 3, 4]\<rparr> = - 1
   \<and> processContent render_blank
        \<lparr>mfct_0f_index = - 1, header_size = 10, mfct_data = [1, 2, 3, 4]\<rparr> empty_state
       = Inr empty_state"
  using processContent_no_mfct_data
    [of "\<lparr>mfct_0f_index = - 1, header_size = 10, mfct_data = [1, 2, 3, 4]\<rparr>"
        render_blank empty_state]
  by simp

text \<open>
  C7, as the spec states it, fails: on the thirteen bytes of the scenario the field
  \<open>previous_average_ambient_temperature\<close> is set as well, not left unset.
\<close>

theorem scenario_counterexample:
  "numeric_value_after (processContent render_blank scenario_telegram empty_state)
     ''previous_average_ambient_temperature'' = Some (Unit_C, Double_div 9999 100)"
  by code_simp

text \<open>
  C7, amended. On the thirteen bytes \<open>02 00 00 00 64 19 32 07 E8 03 0F 27 10\<close> at offset 0
  processContent adds five explanations: the number of measurements (2) at offset 0, the
  status at offset 2, the device date at offset 4 with length 2, written from the time
  \<open>0x1964\<close> and the date \<open>0x0732\<close>, \<open>previous_consumption\<close> at offset 8 and
  \<open>previous_average_ambient_temperature\<close> at offset 10. It sets these two numeric fields
  (1000 / 10 and 9999 / 100) and no other.
\<close>

theorem scenario_decoded:
  "processContent render scenario_telegram empty_state = Inr
  \<lparr>explanations =
     [\<lparr>ex_offset = 0, ex_len = 2, ex_kind = CONTENT, ex_understanding = FULL,
       ex_format = ''*** %02X%02X num measurements %d'',
       ex_args = [Arg_int 0x02, Arg_int 0x00, Arg_int 2]\<rparr>,
      \<lparr>ex_offset = 2, ex_len = 2, ex_kind = CONTENT, ex_understanding = FULL,
       ex_format = ''*** %02X%02X status'',
       ex_args = [Arg_int 0x00, Arg_int 0x00, Arg_int 0]\<rparr>,
      \<lparr>ex_offset = 4, ex_len = 2, ex_kind = CONTENT, ex_understanding = FULL,
       ex_format = ''*** %02X%02X%02X%02X device date (%s)'',
       ex_args = [Arg_int 0x64, Arg_int 0x19, Arg_int 0x32, Arg_int 0x07,
                  Arg_str ''2003-10-02T03:36:10Z'']\<rparr>,
      \<lparr>ex_offset = 8, ex_len = 2, ex_kind = CONTENT, ex_understanding = FULL,
       ex_format = ''*** %02X%02X (%s)'',
       ex_args = [Arg_int 0xE8, Arg_int 0x03,
         Arg_str (render [''previous_consumption'' \<mapsto> (Unit_HCA, Double_div 1000 10)]
                    ''previous_consumption'' Quantity_HCA)]\<rparr>,
      \<lparr>ex_offset = 10, ex_len = 2, ex_kind = CONTENT, ex_understanding = FULL,
       ex_format = ''*** %02X%02X (%s)'',
       ex_args = [Arg_int 0x0F, Arg_int 0x27,
         Arg_str (render [''previous_consumption'' \<mapsto> (Unit_HCA, Double_div 1000 10),
                          ''previous_average_ambient_temperature''
                            \<mapsto> (Unit_C, Double_div 9999 100)]
                    ''previous_average_ambient_temperature'' Quantity_Temperature)]\<rparr>],
   numeric_values = [''previous_consumption'' \<mapsto> (Unit_HCA, Double_div 1000 10),
                     ''previous_average_ambient_temperature''
                       \<mapsto> (Unit_C, Double_div 9999 100)],
   debug_log = [(''(hydroclima mfct)'',
                 [0x02, 0x00, 0x00, 0x00, 0x64, 0x19, 0x32, 0x07, 0xE8, 0x03, 0x0F, 0x27, 0x10])]\<rparr>"
  by (simp add: scenario_telegram_def empty_state_def processContent_defs scenario_values)

text \<open>
  C1 asks, for every payload of at most thirteen bytes, for exactly the segments that fit.
  On the eight bytes \<open>00 00 00 00 00 00 FF 01\<close> three segments fit, but the run ends in
  the read past the month table that the date \<open>0x01FF\<close> causes in \<open>DecodeDateTime\<close>; what
  holds for the runs without that fault is \<open>processContent_prefix\<close>.
\<close>

theorem processContent_date_overrun:
  "processContent render overrun_telegram empty_state = Inl TableOverrun"
  by (simp add: overrun_telegram_def empty_state_def processContent_defs scenario_values)

end
